theory Spec2Isabelle
  imports Complex_Main "HOL-Library.Multiset" "HOL-Library.Stream"
begin

section \<open>The search panel of nextjs-fastapi-starter (components/MiddlePanel.tsx)\<close>

text \<open>
  The component keeps its state in React hooks. The model is a record of that state and
  one function per handler; a handler takes the state and returns the state the
  component has once the handler's updates are applied. What the environment decides
  (the settlement of a request, the values of \<^verbatim>\<open>Math.random()\<close>) is an argument.
  Strings are byte strings: a \<^typ>\<open>string\<close> holds the bytes of the JavaScript string in
  generalized UTF-8, where a surrogate code unit that is not half of a pair is written as
  the three bytes ED, A0..BF, 80..BF, which well-formed UTF-8 never has.
\<close>

subsection \<open>Data\<close>

record Talk =
  title :: string
  url :: string
  sdg_tags :: "string list"

text \<open>
  The response of \<^verbatim>\<open>axios.get\<close> as the handlers read it, and the two ways its promise
  settles: fulfilled with a response, or rejected with an error whose \<^verbatim>\<open>message\<close> is
  kept. (With its default settings axios fulfils for a status from 200 to 299 and
  rejects for every other status and for a transport failure.)
\<close>

record 'd axios_response =
  status :: nat
  statusText :: string
  data :: 'd

datatype 'd settled = Fulfilled "'d axios_response" | Rejected string

text \<open>
  The hooks of \<^verbatim>\<open>MiddlePanel\<close>. \<open>talks\<close> lives in the talk context, \<open>initialKeyword\<close> is
  the ref. A keyword is \<open>None\<close> when it is the JavaScript \<^verbatim>\<open>undefined\<close>, which reading
  the topic array out of range would give. \<open>outbound\<close> lists the URLs of the search
  requests issued so far, oldest first.
\<close>

record ui_state =
  talks :: "Talk list"
  initialKeyword :: "string option"
  query :: "string option"
  error :: "string option"
  loading :: bool
  selectedTalk :: "Talk option"
  logs :: "string list"
  errorDetails :: string
  greeting :: string
  outbound :: "string list"

definition mountState :: "Talk list \<Rightarrow> ui_state" where
  "mountState ts =
     \<lparr>talks = ts, initialKeyword = Some [], query = Some [], error = None,
      loading = False, selectedTalk = None, logs = [], errorDetails = [],
      greeting = [], outbound = []\<rparr>"

definition addLog :: "string \<Rightarrow> ui_state \<Rightarrow> ui_state" where
  "addLog message s = s\<lparr>logs := logs s @ [message]\<rparr>"

subsection \<open>Strings of JavaScript\<close>

text \<open>A keyword inside a template literal or passed to \<^verbatim>\<open>encodeURIComponent\<close>.\<close>

definition js_ToString :: "string option \<Rightarrow> string" where
  "js_ToString v = (case v of None \<Rightarrow> ''undefined'' | Some t \<Rightarrow> t)"

text \<open>A non-negative integer in a string concatenation: its decimal digits.\<close>

fun string_of_nat :: "nat \<Rightarrow> string" where
  "string_of_nat n =
     (if n < 10 then [''0123456789'' ! n]
      else string_of_nat (n div 10) @ [''0123456789'' ! (n mod 10)])"

declare string_of_nat.simps [simp del]

text \<open>The exceptions of the built-in functions that the panel calls.\<close>

datatype js_error = TypeError | URIError

text \<open>
  A lone surrogate in the string: the byte ED followed by a byte from A0 to BF. ED is never
  a continuation byte, and in well-formed UTF-8 the byte after ED is at most 9F.
\<close>

fun lone_surrogate :: "string \<Rightarrow> bool" where
  "lone_surrogate (a # b # t) =
     ((of_char a = (237::nat) \<and> 160 \<le> (of_char b :: nat) \<and> (of_char b :: nat) \<le> 191)
      \<or> lone_surrogate (b # t))"
| "lone_surrogate t = False"

definition is_unreserved :: "char \<Rightarrow> bool" where
  "is_unreserved c =
     (let k = (of_char c :: nat) in
        (65 \<le> k \<and> k \<le> 90) \<or> (97 \<le> k \<and> k \<le> 122) \<or> (48 \<le> k \<and> k \<le> 57)
        \<or> c \<in> set ''-_.!~*()'' \<or> k = 39)"

text \<open>A byte has two hexadecimal digits, each below 16.\<close>

definition hex_digit :: "nat \<Rightarrow> char" where
  "hex_digit k = ''0123456789ABCDEF'' ! k"

definition encode_byte :: "char \<Rightarrow> string" where
  "encode_byte c =
     (if is_unreserved c then [c]
      else CHR ''%'' # [hex_digit (of_char c div 16), hex_digit (of_char c mod 16)])"

text \<open>\<^verbatim>\<open>encodeURIComponent\<close> throws a \<^verbatim>\<open>URIError\<close> on a string that holds a lone surrogate.\<close>

definition encodeURIComponent :: "string \<Rightarrow> js_error + string" where
  "encodeURIComponent t =
     (if lone_surrogate t then Inl URIError else Inr (concat (map encode_byte t)))"

text \<open>The template literal of the request: it throws what \<^verbatim>\<open>encodeURIComponent\<close> throws.\<close>

definition searchUrl :: "string option \<Rightarrow> js_error + string" where
  "searchUrl searchQuery =
     (case encodeURIComponent (js_ToString searchQuery) of
        Inl e \<Rightarrow> Inl e
      | Inr encoded \<Rightarrow> Inr (''http://localhost:8000/api/py/search?query='' @ encoded))"

text \<open>
  A handler either returns, leaving a state, or throws. \<open>Inl (e, s)\<close> is the throw of \<open>e\<close> in
  the state \<open>s\<close> that the updates made before the throw leave; the component goes on in
  that state.
\<close>

definition state_after :: "(js_error \<times> ui_state) + ui_state \<Rightarrow> ui_state" where
  "state_after r = (case r of Inl (e, s) \<Rightarrow> s | Inr s \<Rightarrow> s)"

subsection \<open>The initial keyword\<close>

definition topics :: "string list" where
  "topics = [''poverty'', ''hunger'', ''health'', ''education'', ''gender'', ''water'',
     ''energy'', ''work'', ''industry'', ''inequality'', ''city'', ''consumption'',
     ''climate'', ''ocean'', ''land'', ''peace'', ''partnership'']"

text \<open>
  \<open>randomNumber\<close> is the value of \<^verbatim>\<open>Math.floor(Math.random() * 18)\<close>. An index outside the
  array reads \<^verbatim>\<open>undefined\<close>.
\<close>

definition determineInitialKeyword :: "nat \<Rightarrow> string option" where
  "determineInitialKeyword randomNumber =
     (if randomNumber = 0 then Some ''TED AI''
      else if randomNumber - 1 < length topics then Some (topics ! (randomNumber - 1))
      else None)"

text \<open>The share of the 18 equally likely draws that give the keyword \<open>k\<close>.\<close>

definition keyword_probability :: "string option \<Rightarrow> real" where
  "keyword_probability k =
     real (card {r \<in> {0..<18}. determineInitialKeyword r = k}) / 18"

subsection \<open>The sort with a random comparator\<close>

text \<open>
  \<^verbatim>\<open>data.sort(() => Math.random() - 0.5)\<close>. The stream holds the successive values of
  \<^verbatim>\<open>Math.random()\<close>. The order in which \<^verbatim>\<open>Array.prototype.sort\<close> asks the comparator is
  left to the engine; the model is an insertion sort, which asks it for the element to
  insert and each element it passes. A negative answer puts the first argument first.
\<close>

definition compareFn :: "real \<Rightarrow> real" where
  "compareFn u = u - 1 / 2"

fun insert_by :: "'a \<Rightarrow> 'a list \<Rightarrow> real stream \<Rightarrow> 'a list \<times> real stream" where
  "insert_by x [] g = ([x], g)"
| "insert_by x (y # ys) g =
     (if compareFn (shd g) \<le> 0 then (x # y # ys, stl g)
      else (case insert_by x ys (stl g) of (zs, g') \<Rightarrow> (y # zs, g')))"

fun sort_random :: "'a list \<Rightarrow> real stream \<Rightarrow> 'a list \<times> real stream" where
  "sort_random [] g = ([], g)"
| "sort_random (x # xs) g =
     (case sort_random xs g of (ys, g') \<Rightarrow> insert_by x ys g')"

subsection \<open>performSearch\<close>

text \<open>
  The synchronous part: the two updates, then the URL is built, which may throw, and the
  GET is sent.
\<close>

definition performSearch_issue ::
  "string option \<Rightarrow> ui_state \<Rightarrow> (js_error \<times> ui_state) + ui_state" where
  "performSearch_issue searchQuery s =
     (case searchUrl searchQuery of
        Inl e \<Rightarrow> Inl (e, s\<lparr>loading := True, error := None\<rparr>)
      | Inr u \<Rightarrow> Inr (s\<lparr>loading := True, error := None, outbound := outbound s @ [u]\<rparr>))"

text \<open>
  The \<^verbatim>\<open>then\<close> callback. \<open>Inl (m, s')\<close> is the throw of an \<^verbatim>\<open>Error\<close> with message \<open>m\<close>, in the
  state \<open>s'\<close> that the updates made before the throw leave.
\<close>

definition search_then ::
  "real stream \<Rightarrow> Talk list axios_response \<Rightarrow> ui_state \<Rightarrow> (string \<times> ui_state) + ui_state" where
  "search_then g searchResponse s =
     (if status searchResponse \<noteq> 200 then
        Inl (''Error: '' @ string_of_nat (status searchResponse) @ '' - '' @ statusText searchResponse,
             addLog (''Search failed. Status: '' @ string_of_nat (status searchResponse)
                       @ '' - '' @ statusText searchResponse) s)
      else
        (let sorted_data = fst (sort_random (data searchResponse) g);
             s1 = s\<lparr>talks := sorted_data\<rparr>;
             s2 = addLog (''Search results retrieved: '' @ string_of_nat (length sorted_data)
                            @ '' talks found.'') s1
         in case sorted_data of
              [] \<Rightarrow> Inr (s2\<lparr>selectedTalk := None\<rparr>)
            | t # _ \<Rightarrow> Inr (addLog (''For example: '' @ title t) (s2\<lparr>selectedTalk := Some t\<rparr>))))"

definition search_catch :: "string \<Rightarrow> ui_state \<Rightarrow> ui_state" where
  "search_catch message s =
     addLog (''Failed to fetch data: '' @ message)
       (s\<lparr>error := Some ''Failed to fetch data. Please check if the backend server is running.'',
          errorDetails := message\<rparr>)"

definition search_finally :: "ui_state \<Rightarrow> ui_state" where
  "search_finally s = s\<lparr>loading := False\<rparr>"

text \<open>The promise chain, run when the request settles.\<close>

definition performSearch_settle ::
  "real stream \<Rightarrow> Talk list settled \<Rightarrow> ui_state \<Rightarrow> ui_state" where
  "performSearch_settle g outcome s =
     search_finally
       (case outcome of
          Rejected message \<Rightarrow> search_catch message s
        | Fulfilled searchResponse \<Rightarrow>
            (case search_then g searchResponse s of
               Inl (message, s') \<Rightarrow> search_catch message s'
             | Inr s' \<Rightarrow> s'))"

text \<open>
  A search call from its start to the end of its promise chain: \<open>net\<close> gives how the
  request for a URL settles. When the URL cannot be built the call throws before there is
  a request, and no callback is attached. A request that never settles runs
  \<open>performSearch_issue\<close> only.
\<close>

definition performSearch ::
  "(string \<Rightarrow> Talk list settled) \<Rightarrow> real stream \<Rightarrow> string option \<Rightarrow> ui_state
     \<Rightarrow> (js_error \<times> ui_state) + ui_state" where
  "performSearch net g searchQuery s =
     (case searchUrl searchQuery of
        Inl e \<Rightarrow> Inl (e, s\<lparr>loading := True, error := None\<rparr>)
      | Inr u \<Rightarrow>
          Inr (performSearch_settle g (net u)
                 (s\<lparr>loading := True, error := None, outbound := outbound s @ [u]\<rparr>)))"

subsection \<open>The handlers of the panel\<close>

definition handleInputChange :: "string \<Rightarrow> ui_state \<Rightarrow> ui_state" where
  "handleInputChange text s = s\<lparr>query := Some text\<rparr>"

text \<open>A manual search, from the Enter key or the Search button: the synchronous part.\<close>

definition manualSearch :: "ui_state \<Rightarrow> (js_error \<times> ui_state) + ui_state" where
  "manualSearch s =
     performSearch_issue (query s)
       (addLog (''Manual search initiated with keyword: '' @ js_ToString (query s)) s)"

definition handleKeyPress :: "string \<Rightarrow> ui_state \<Rightarrow> (js_error \<times> ui_state) + ui_state" where
  "handleKeyPress key s = (if key = ''Enter'' then manualSearch s else Inr s)"

text \<open>The button is disabled while loading, and a disabled button gets no click.\<close>

definition searchButtonClick :: "ui_state \<Rightarrow> (js_error \<times> ui_state) + ui_state" where
  "searchButtonClick s = (if loading s then Inr s else manualSearch s)"

text \<open>
  The \<^verbatim>\<open>onClick\<close> of a result. The scroll of the window is outside the state. The list
  renders one element per index of \<open>talks\<close>, so a click names an index; there is nothing to
  click at an index the list does not have.
\<close>

definition resultOnClick :: "Talk \<Rightarrow> ui_state \<Rightarrow> ui_state" where
  "resultOnClick talk s = s\<lparr>selectedTalk := Some talk\<rparr>"

definition clickResult :: "nat \<Rightarrow> ui_state \<Rightarrow> ui_state" where
  "clickResult index s =
     (if index < length (talks s) then resultOnClick (talks s ! index) s else s)"

definition openTranscriptInNewTab :: "ui_state \<Rightarrow> ui_state" where
  "openTranscriptInNewTab s =
     (case selectedTalk s of
        None \<Rightarrow> s
      | Some t \<Rightarrow> addLog (''Opened transcript in a new tab: '' @ url t @ ''/transcript?subtitle=en'') s)"

text \<open>
  The effect of the initial keyword, run with the draw \<open>randomNumber\<close>: the synchronous
  part of its search.
\<close>

definition initialKeywordEffect ::
  "nat \<Rightarrow> ui_state \<Rightarrow> (js_error \<times> ui_state) + ui_state" where
  "initialKeywordEffect randomNumber s =
     (if initialKeyword s = Some [] then
        (let k = determineInitialKeyword randomNumber
         in performSearch_issue k (s\<lparr>initialKeyword := k, query := k\<rparr>))
      else Inr s)"

subsection \<open>The greeting\<close>

text \<open>
  The body of the greeting response: \<open>NoBody\<close> is a falsy \<^verbatim>\<open>data\<close>, \<open>Body m\<close> an object
  whose \<^verbatim>\<open>message\<close> field is the string \<open>m\<close>, or that has no such field when \<open>m\<close> is \<open>None\<close>.
  A string is truthy when it is not empty.
\<close>

datatype hello_body = NoBody | Body "string option"

definition message_truthy :: "hello_body \<Rightarrow> bool" where
  "message_truthy d = (case d of Body (Some m) \<Rightarrow> m \<noteq> [] | _ \<Rightarrow> False)"

definition greeting_settle :: "hello_body settled \<Rightarrow> ui_state \<Rightarrow> ui_state" where
  "greeting_settle outcome s =
     (case outcome of
        Fulfilled greetingResponse \<Rightarrow>
          (if message_truthy (data greetingResponse) then
             (case data greetingResponse of
                Body (Some m) \<Rightarrow> s\<lparr>greeting := m\<rparr>
              | _ \<Rightarrow> s)
           else s\<lparr>greeting := ''Unknown response format''\<rparr>)
      | Rejected message \<Rightarrow>
          addLog (''Failed to fetch greeting: '' @ message)
            (s\<lparr>greeting := ''Failed to load greeting.'', errorDetails := message\<rparr>))"

subsection \<open>generateEmbedUrl\<close>

text \<open>
  The values the guard of \<^verbatim>\<open>generateEmbedUrl\<close> tells apart (numbers are the integers).
  Calling \<^verbatim>\<open>match\<close> on a value that has no such method throws a \<^verbatim>\<open>TypeError\<close>.
\<close>

datatype js_value = JUndefined | JNull | JBool bool | JNum int | JString string

fun truthy :: "js_value \<Rightarrow> bool" where
  "truthy JUndefined = False"
| "truthy JNull = False"
| "truthy (JBool b) = b"
| "truthy (JNum n) = (n \<noteq> 0)"
| "truthy (JString t) = (t \<noteq> [])"

fun typeof :: "js_value \<Rightarrow> string" where
  "typeof JUndefined = ''undefined''"
| "typeof JNull = ''object''"
| "typeof (JBool b) = ''boolean''"
| "typeof (JNum n) = ''number''"
| "typeof (JString t) = ''string''"

text \<open>\<^verbatim>\<open>v ?? d\<close>\<close>

fun nullish :: "js_value \<Rightarrow> js_value \<Rightarrow> js_value" where
  "nullish JUndefined d = d"
| "nullish JNull d = d"
| "nullish v d = v"

text \<open>\<^verbatim>\<open>\w\<close> without the unicode flag: a letter, a digit or the underscore.\<close>

definition is_word :: "char \<Rightarrow> bool" where
  "is_word c =
     (let k = (of_char c :: nat) in
        (65 \<le> k \<and> k \<le> 90) \<or> (97 \<le> k \<and> k \<le> 122) \<or> (48 \<le> k \<and> k \<le> 57) \<or> k = 95)"

definition ted_prefix :: string where
  "ted_prefix = ''https://www.ted.com/talks/''"

fun strip_prefix :: "string \<Rightarrow> string \<Rightarrow> string option" where
  "strip_prefix [] t = Some t"
| "strip_prefix (p # ps) [] = None"
| "strip_prefix (p # ps) (c # cs) = (if p = c then strip_prefix ps cs else None)"

text \<open>
  The regular expression tried at the start of \<open>t\<close>: the literal prefix, then the longest
  run of word characters, which must not be empty. The result is the capture group.
\<close>

definition match_at :: "string \<Rightarrow> string option" where
  "match_at t =
     (case strip_prefix ted_prefix t of
        None \<Rightarrow> None
      | Some rest \<Rightarrow>
          (if takeWhile is_word rest = [] then None else Some (takeWhile is_word rest)))"

text \<open>The expression is not anchored: \<^verbatim>\<open>match\<close> takes the leftmost position where it matches.\<close>

fun tedRegex_match :: "string \<Rightarrow> string option" where
  "tedRegex_match [] = None"
| "tedRegex_match (c # cs) =
     (case match_at (c # cs) of Some name \<Rightarrow> Some name | None \<Rightarrow> tedRegex_match cs)"

fun js_match :: "js_value \<Rightarrow> js_error + string option" where
  "js_match (JString t) = Inr (tedRegex_match t)"
| "js_match v = Inl TypeError"

definition generateEmbedUrl :: "js_value \<Rightarrow> js_error + js_value" where
  "generateEmbedUrl u =
     (if \<not> truthy u \<or> typeof u \<noteq> ''string'' then Inr (nullish u (JString []))
      else
        (case js_match u of
           Inl e \<Rightarrow> Inl e
         | Inr None \<Rightarrow> Inr u
         | Inr (Some name) \<Rightarrow> Inr (JString (''https://embed.ted.com/talks/'' @ name @ ''?subtitle=en''))))"

text \<open>
  A string of the form \<^verbatim>\<open>https://www.ted.com/talks/<name>\<close>, the name not empty and made
  of word characters.
\<close>

definition talk_page_form :: "string \<Rightarrow> bool" where
  "talk_page_form t =
     (\<exists>name. name \<noteq> [] \<and> list_all is_word name \<and> t = ''https://www.ted.com/talks/'' @ name)"

text \<open>A string contains a talk page: the prefix followed by a word character, anywhere.\<close>

definition contains_talk_page :: "string \<Rightarrow> bool" where
  "contains_talk_page t = (\<exists>pre c rest. t = pre @ ted_prefix @ c # rest \<and> is_word c)"

subsection \<open>The life of the component\<close>

text \<open>
  What can happen to a mounted panel, in any order: a run of the initial-keyword effect
  with its draw, the settlement of the greeting request, typing, a key, the Search
  button, the settlement of a search request (with the random values its sort reads),
  a click on the result at an index, the Transcript button.
\<close>

datatype event =
    InitialKeywordEffect nat
  | GreetingSettled "hello_body settled"
  | InputChange string
  | KeyDown string
  | SearchButton
  | SearchSettled "real stream" "Talk list settled"
  | ResultClick nat
  | TranscriptButton

fun step :: "event \<Rightarrow> ui_state \<Rightarrow> ui_state" where
  "step (InitialKeywordEffect r) s = state_after (initialKeywordEffect r s)"
| "step (GreetingSettled outcome) s = greeting_settle outcome s"
| "step (InputChange text) s = handleInputChange text s"
| "step (KeyDown key) s = state_after (handleKeyPress key s)"
| "step SearchButton s = state_after (searchButtonClick s)"
| "step (SearchSettled g outcome) s = performSearch_settle g outcome s"
| "step (ResultClick index) s = clickResult index s"
| "step TranscriptButton s = openTranscriptInNewTab s"

definition run :: "event list \<Rightarrow> ui_state \<Rightarrow> ui_state" where
  "run evs s = fold step evs s"

text \<open>
  The searches that the runs of the initial-keyword effect send during a sequence of
  events: for each run, the number of requests it adds to \<open>outbound\<close>.
\<close>

fun auto_searches :: "event list \<Rightarrow> ui_state \<Rightarrow> nat" where
  "auto_searches [] s = 0"
| "auto_searches (InitialKeywordEffect r # evs) s =
     (length (outbound (state_after (initialKeywordEffect r s))) - length (outbound s))
       + auto_searches evs (state_after (initialKeywordEffect r s))"
| "auto_searches (e # evs) s = auto_searches evs (step e s)"

text \<open>The selected talk is none or one of the results.\<close>

definition selected_in_results :: "ui_state \<Rightarrow> bool" where
  "selected_in_results s =
     (case selectedTalk s of None \<Rightarrow> True | Some t \<Rightarrow> t \<in> set (talks s))"

subsection \<open>Failure of a search, and sample data\<close>

text \<open>A search request fails when it is rejected, or fulfilled with a status other than 200.\<close>

definition search_failed :: "Talk list settled \<Rightarrow> bool" where
  "search_failed outcome =
     (case outcome of Rejected m \<Rightarrow> True | Fulfilled r \<Rightarrow> status r \<noteq> 200)"

definition talkA :: Talk where
  "talkA = \<lparr>title = ''A'', url = ''https://www.ted.com/talks/a_talk'', sdg_tags = [''sdg1'']\<rparr>"

definition talkB :: Talk where
  "talkB = \<lparr>title = ''B'', url = ''https://www.ted.com/talks/b_talk'', sdg_tags = []\<rparr>"

text \<open>A backend that answers every URL with the same response.\<close>

definition respond :: "nat \<Rightarrow> string \<Rightarrow> 'd \<Rightarrow> string \<Rightarrow> 'd settled" where
  "respond code text body u = Fulfilled \<lparr>status = code, statusText = text, data = body\<rparr>"

section \<open>Properties\<close>

subsection \<open>The random sort permutes\<close>

lemma mset_insert_by: "mset (fst (insert_by x ys g)) = add_mset x (mset ys)"
proof (induction ys arbitrary: g)
  case Nil
  then show ?case by simp
next
  case (Cons y ys)
  obtain zs g' where r: "insert_by x ys (stl g) = (zs, g')"
    by (cases "insert_by x ys (stl g)")
  with Cons.IH [of "stl g"] have "mset zs = add_mset x (mset ys)" by simp
  with r show ?case by simp
qed

lemma mset_sort_random: "mset (fst (sort_random xs g)) = mset xs"
proof (induction xs arbitrary: g)
  case Nil
  then show ?case by simp
next
  case (Cons x xs)
  obtain ys g' where r: "sort_random xs g = (ys, g')"
    by (cases "sort_random xs g")
  with Cons.IH [of g] have "mset ys = mset xs" by simp
  with r show ?case using mset_insert_by [of x ys g'] by simp
qed

lemma length_sort_random: "length (fst (sort_random xs g)) = length xs"
  using mset_sort_random [of xs g] by (metis size_mset)

subsection \<open>Building the URL of the request\<close>

lemma ascii_no_surrogate: "\<forall>c \<in> set t. (of_char c :: nat) < 128 \<Longrightarrow> \<not> lone_surrogate t"
  by (induction t rule: lone_surrogate.induct) auto

lemma searchUrl_Inr:
  "\<not> lone_surrogate (js_ToString q) \<Longrightarrow>
     searchUrl q = Inr (''http://localhost:8000/api/py/search?query=''
                          @ concat (map encode_byte (js_ToString q)))"
  by (simp add: searchUrl_def encodeURIComponent_def)

lemma searchUrl_Inl: "lone_surrogate (js_ToString q) \<Longrightarrow> searchUrl q = Inl URIError"
  by (simp add: searchUrl_def encodeURIComponent_def)

lemma searchUrl_Inr_iff: "(\<exists>u. searchUrl q = Inr u) = (\<not> lone_surrogate (js_ToString q))"
  by (cases "lone_surrogate (js_ToString q)") (simp_all add: searchUrl_Inl searchUrl_Inr)

lemma keyword_ascii: "\<forall>c \<in> set (js_ToString (determineInitialKeyword r)). (of_char c :: nat) < 128"
proof -
  have "\<forall>k \<in> set topics. \<forall>c \<in> set k. (of_char c :: nat) < 128"
    by (simp add: topics_def)
  then show ?thesis
    by (auto simp: determineInitialKeyword_def js_ToString_def)
qed

lemma keyword_url: "\<exists>u. searchUrl (determineInitialKeyword r) = Inr u"
  unfolding searchUrl_Inr_iff using keyword_ascii by (rule ascii_no_surrogate)

text \<open>The request of the search for the alternate keyword: the space is percent-encoded.\<close>

lemma searchUrl_example:
  "searchUrl (determineInitialKeyword 0)
     = Inr ''http://localhost:8000/api/py/search?query=TED%20AI''"
  by (simp add: searchUrl_def determineInitialKeyword_def js_ToString_def
        encodeURIComponent_def encode_byte_def is_unreserved_def hex_digit_def)

lemma searchUrl_climate:
  "searchUrl (Some ''climate'') = Inr ''http://localhost:8000/api/py/search?query=climate''"
  by (simp add: searchUrl_def js_ToString_def encodeURIComponent_def encode_byte_def
        is_unreserved_def)


subsection \<open>A search that completes\<close>

lemmas eval_search = performSearch_def performSearch_settle_def performSearch_issue_def
  search_then_def search_catch_def search_finally_def addLog_def mountState_def
  respond_def compareFn_def string_of_nat.simps state_after_def searchUrl_climate

lemma settle_200:
  assumes "status r = 200"
  shows "performSearch_settle g (Fulfilled r) s =
     (let sorted_data = fst (sort_random (data r) g);
          s2 = addLog (''Search results retrieved: '' @ string_of_nat (length sorted_data)
                         @ '' talks found.'') (s\<lparr>talks := sorted_data\<rparr>)
      in case sorted_data of
           [] \<Rightarrow> s2\<lparr>selectedTalk := None, loading := False\<rparr>
         | t # _ \<Rightarrow> (addLog (''For example: '' @ title t) (s2\<lparr>selectedTalk := Some t\<rparr>))
                     \<lparr>loading := False\<rparr>)"
  using assms
  by (simp add: performSearch_settle_def search_then_def search_finally_def Let_def
           split: list.splits)

text \<open>
  C1, as the code has it. When the request of a search call is fulfilled with status 200,
  the call completes, the results become a permutation of the response list (so of the
  same length), the selected talk is the first of the stored results, or none when there
  are none, and the log grows by the entry that counts the talks, followed, when there is
  a first result, by a second entry that names its title.
\<close>

theorem search_success:
  assumes "searchUrl q = Inr u" and "net u = Fulfilled r" and "status r = 200"
  shows "\<exists>s'. performSearch net g q s = Inr s' \<and>
         mset (talks s') = mset (data r) \<and>
         length (talks s') = length (data r) \<and>
         selectedTalk s' = (case talks s' of [] \<Rightarrow> None | t # ts \<Rightarrow> Some t) \<and>
         logs s' =
           logs s @ (''Search results retrieved: '' @ string_of_nat (length (data r))
                       @ '' talks found.'')
             # (case talks s' of [] \<Rightarrow> [] | t # ts \<Rightarrow> [''For example: '' @ title t])"
proof -
  let ?d = "fst (sort_random (data r) g)"
  let ?s1 = "s\<lparr>loading := True, error := None, outbound := outbound s @ [u]\<rparr>"
  let ?s' = "performSearch_settle g (Fulfilled r) ?s1"
  have p: "performSearch net g q s = Inr ?s'"
    using assms(1,2) by (simp add: performSearch_def)
  have t: "talks ?s' = ?d"
    unfolding settle_200 [OF assms(3)]
    by (simp add: Let_def addLog_def split: list.splits)
  have sel: "selectedTalk ?s' = (case ?d of [] \<Rightarrow> None | t # ts \<Rightarrow> Some t)"
    unfolding settle_200 [OF assms(3)]
    by (simp add: Let_def addLog_def split: list.splits)
  have lg: "logs ?s' =
      logs s @ (''Search results retrieved: '' @ string_of_nat (length ?d) @ '' talks found.'')
             # (case ?d of [] \<Rightarrow> [] | t # ts \<Rightarrow> [''For example: '' @ title t])"
    unfolding settle_200 [OF assms(3)]
    by (simp add: Let_def addLog_def split: list.splits)
  have "mset (talks ?s') = mset (data r) \<and>
         length (talks ?s') = length (data r) \<and>
         selectedTalk ?s' = (case talks ?s' of [] \<Rightarrow> None | t # ts \<Rightarrow> Some t) \<and>
         logs ?s' =
           logs s @ (''Search results retrieved: '' @ string_of_nat (length (data r))
                       @ '' talks found.'')
             # (case talks ?s' of [] \<Rightarrow> [] | t # ts \<Rightarrow> [''For example: '' @ title t])"
    unfolding t sel lg by (simp add: mset_sort_random length_sort_random)
  with p show ?thesis by blast
qed

theorem search_success_witness:
  "searchUrl (Some ''climate'') = Inr ''http://localhost:8000/api/py/search?query=climate'' \<and>
   talks (state_after (performSearch (respond 200 ''OK'' [talkA, talkB]) (sconst (3 / 4))
            (Some ''climate'') (mountState []))) = [talkB, talkA] \<and>
   selectedTalk (state_after (performSearch (respond 200 ''OK'' [talkA, talkB]) (sconst (3 / 4))
            (Some ''climate'') (mountState []))) = Some talkB \<and>
   mset (talks (state_after (performSearch (respond 200 ''OK'' [talkA, talkB]) (sconst (3 / 4))
            (Some ''climate'') (mountState [])))) = mset [talkA, talkB]"
proof -
  have h1: "respond 200 ''OK'' [talkA, talkB] ''http://localhost:8000/api/py/search?query=climate''
              = Fulfilled \<lparr>status = 200, statusText = ''OK'', data = [talkA, talkB]\<rparr>"
    by (simp add: respond_def)
  have h2: "status \<lparr>status = 200, statusText = ''OK'', data = [talkA, talkB]\<rparr> = 200"
    by simp
  have t: "talks (state_after (performSearch (respond 200 ''OK'' [talkA, talkB]) (sconst (3 / 4))
                    (Some ''climate'') (mountState []))) = [talkB, talkA]"
    by (simp add: eval_search)
  from search_success [where net = "respond 200 ''OK'' [talkA, talkB]" and q = "Some ''climate''"
         and g = "sconst (3 / 4)" and s = "mountState []", OF searchUrl_climate h1 h2]
  obtain s' where s': "performSearch (respond 200 ''OK'' [talkA, talkB]) (sconst (3 / 4))
                         (Some ''climate'') (mountState []) = Inr s'"
      and m: "mset (talks s') = mset [talkA, talkB]"
      and sel: "selectedTalk s' = (case talks s' of [] \<Rightarrow> None | t # ts \<Rightarrow> Some t)"
    by auto
  from s' have a: "state_after (performSearch (respond 200 ''OK'' [talkA, talkB]) (sconst (3 / 4))
                         (Some ''climate'') (mountState [])) = s'"
    by (simp add: state_after_def)
  from t m sel show ?thesis unfolding a by (simp add: searchUrl_climate)
qed

text \<open>
  A search that finds one talk appends two log entries to the empty log of a fresh panel,
  not one.
\<close>

theorem search_success_logs_twice:
  "logs (mountState []) = [] \<and>
   logs (state_after (performSearch (respond 200 ''OK'' [talkA]) (sconst (1 / 4))
           (Some ''climate'') (mountState [])))
     = [''Search results retrieved: 1 talks found.'', ''For example: A'']"
  by (simp add: eval_search talkA_def)

text \<open>
  C2, as the code has it. When the request of a search call is rejected or fulfilled with
  a status other than 200, the call completes, the error is the fixed message, the error
  details hold the underlying text, the results are what they were, and the log grows by
  one entry for a rejected request and by two for a response whose status is not 200: the
  \<^verbatim>\<open>then\<close> callback logs the status before it throws, and the \<^verbatim>\<open>catch\<close> callback logs
  again.
\<close>

theorem search_failure:
  assumes "searchUrl q = Inr u" and "search_failed (net u)"
  shows "\<exists>s'. performSearch net g q s = Inr s' \<and>
         error s' =
           Some ''Failed to fetch data. Please check if the backend server is running.'' \<and>
         errorDetails s' =
           (case net u of
              Rejected m \<Rightarrow> m
            | Fulfilled r \<Rightarrow> ''Error: '' @ string_of_nat (status r) @ '' - '' @ statusText r) \<and>
         talks s' = talks s \<and>
         logs s' =
           logs s @
           (case net u of
              Rejected m \<Rightarrow> [''Failed to fetch data: '' @ m]
            | Fulfilled r \<Rightarrow>
                [''Search failed. Status: '' @ string_of_nat (status r) @ '' - '' @ statusText r,
                 ''Failed to fetch data: Error: '' @ string_of_nat (status r) @ '' - ''
                   @ statusText r])"
proof (cases "net u")
  case (Rejected m)
  with assms(1) show ?thesis
    by (simp add: performSearch_def performSearch_settle_def search_catch_def
          search_finally_def addLog_def)
next
  case (Fulfilled r)
  with assms(2) have "status r \<noteq> 200" by (simp add: search_failed_def)
  with Fulfilled assms(1) show ?thesis
    by (simp add: performSearch_def performSearch_settle_def search_then_def search_catch_def
          search_finally_def addLog_def)
qed

theorem search_failure_witness:
  "search_failed (Rejected ''Network Error'') \<and>
   talks (state_after (performSearch (\<lambda>u. Rejected ''Network Error'') (sconst (1 / 4))
            (Some ''climate'') (mountState [talkA]))) = [talkA] \<and>
   errorDetails (state_after (performSearch (\<lambda>u. Rejected ''Network Error'') (sconst (1 / 4))
            (Some ''climate'') (mountState [talkA]))) = ''Network Error'' \<and>
   logs (state_after (performSearch (\<lambda>u. Rejected ''Network Error'') (sconst (1 / 4))
            (Some ''climate'') (mountState [talkA]))) = [''Failed to fetch data: Network Error'']"
proof -
  have h: "search_failed ((\<lambda>u. Rejected ''Network Error'')
             ''http://localhost:8000/api/py/search?query=climate'')"
    by (simp add: search_failed_def)
  from search_failure [where net = "\<lambda>u. Rejected ''Network Error''" and q = "Some ''climate''"
           and g = "sconst (1 / 4)" and s = "mountState [talkA]", OF searchUrl_climate h]
  obtain s' where s': "performSearch (\<lambda>u. Rejected ''Network Error'') (sconst (1 / 4))
                         (Some ''climate'') (mountState [talkA]) = Inr s'"
      and r: "talks s' = talks (mountState [talkA])" "errorDetails s' = ''Network Error''"
             "logs s' = logs (mountState [talkA]) @ [''Failed to fetch data: Network Error'']"
    by auto
  from s' have a: "state_after (performSearch (\<lambda>u. Rejected ''Network Error'') (sconst (1 / 4))
                         (Some ''climate'') (mountState [talkA])) = s'"
    by (simp add: state_after_def)
  from h r show ?thesis unfolding a by (simp add: mountState_def)
qed

text \<open>
  A response with status 201 appends two log entries to the empty log of a fresh panel,
  not one.
\<close>

theorem search_failure_logs_twice:
  "logs (mountState []) = [] \<and>
   logs (state_after (performSearch (respond 201 ''Created'' []) (sconst (1 / 4))
           (Some ''climate'') (mountState [])))
     = [''Search failed. Status: 201 - Created'',
        ''Failed to fetch data: Error: 201 - Created'']"
  by (simp add: eval_search)




subsection \<open>Selecting a result\<close>

text \<open>
  C8. A click on the result at an index of the current results list sets the selected
  talk to exactly that element and leaves the results list as it was.
\<close>

theorem click_selects:
  assumes "index < length (talks s)"
  shows "selectedTalk (clickResult index s) = Some (talks s ! index) \<and>
         talks (clickResult index s) = talks s"
  using assms by (simp add: clickResult_def resultOnClick_def)

theorem click_selects_witness:
  "(1::nat) < length (talks (mountState [talkA, talkB])) \<and>
   selectedTalk (clickResult 1 (mountState [talkA, talkB])) = Some talkB \<and>
   talks (clickResult 1 (mountState [talkA, talkB])) = [talkA, talkB]"
proof -
  have h: "(1::nat) < length (talks (mountState [talkA, talkB]))"
    by (simp add: mountState_def)
  from h click_selects [OF h] show ?thesis by (simp add: mountState_def)
qed

subsection \<open>The greeting\<close>

lemma greeting_frame:
  "initialKeyword (greeting_settle outcome s) = initialKeyword s"
  "talks (greeting_settle outcome s) = talks s"
  "selectedTalk (greeting_settle outcome s) = selectedTalk s"
  by (simp_all add: greeting_settle_def addLog_def
        split: settled.splits hello_body.splits option.splits)

text \<open>
  C9, as the code has it. When the greeting request is fulfilled, the greeting is the
  message of the body if the body has a message that is not empty, and the fixed string
  \<^verbatim>\<open>Unknown response format\<close> if the message is empty, if the body has no message field, or
  if there is no body. When the request is rejected, the greeting is the fixed string
  \<^verbatim>\<open>Failed to load greeting.\<close>, the error text is stored in the error details and one log
  entry with the error text is appended.
\<close>

theorem greeting_settled:
  "greeting (greeting_settle
      (Fulfilled \<lparr>status = code, statusText = text, data = Body (Some (c # cs))\<rparr>) s) = c # cs \<and>
   greeting (greeting_settle
      (Fulfilled \<lparr>status = code, statusText = text, data = Body (Some [])\<rparr>) s)
     = ''Unknown response format'' \<and>
   greeting (greeting_settle
      (Fulfilled \<lparr>status = code, statusText = text, data = Body None\<rparr>) s)
     = ''Unknown response format'' \<and>
   greeting (greeting_settle
      (Fulfilled \<lparr>status = code, statusText = text, data = NoBody\<rparr>) s)
     = ''Unknown response format'' \<and>
   greeting (greeting_settle (Rejected e) s) = ''Failed to load greeting.'' \<and>
   errorDetails (greeting_settle (Rejected e) s) = e \<and>
   logs (greeting_settle (Rejected e) s) = logs s @ [''Failed to fetch greeting: '' @ e]"
  by (simp add: greeting_settle_def message_truthy_def addLog_def)

text \<open>
  A body whose message field is the empty string has a message field, and the greeting
  is the fallback, not that message.
\<close>

theorem greeting_empty_message:
  "greeting (greeting_settle
      (respond 200 ''OK'' (Body (Some [])) ''http://127.0.0.1:8000/api/py/hello'')
      (mountState [])) = ''Unknown response format'' \<and>
   greeting (greeting_settle
      (respond 200 ''OK'' (Body (Some [])) ''http://127.0.0.1:8000/api/py/hello'')
      (mountState [])) \<noteq> []"
  by (simp add: greeting_settle_def message_truthy_def respond_def)

subsection \<open>The initial keyword\<close>

lemma keywords_listed:
  "map determineInitialKeyword [0..<18] = map Some (''TED AI'' # topics)"
  by (simp add: determineInitialKeyword_def topics_def upt_rec)

lemma keywords_distinct: "distinct (''TED AI'' # topics)"
  by (simp add: topics_def)

lemma keyword_inj: "inj_on determineInitialKeyword {0..<18}"
proof -
  have "distinct (map determineInitialKeyword [0..<18])"
    unfolding keywords_listed using keywords_distinct
    by (simp only: distinct_map inj_on_def option.inject) blast
  then show ?thesis by (simp add: distinct_map)
qed

lemma keyword_share:
  assumes "r < 18"
  shows "keyword_probability (determineInitialKeyword r) = 1 / 18"
proof -
  have "{x \<in> {0..<18}. determineInitialKeyword x = determineInitialKeyword r} = {r}"
    using keyword_inj assms by (auto simp: inj_on_def)
  then show ?thesis by (simp add: keyword_probability_def)
qed

text \<open>
  C7. Of the 18 equally likely draws 0 to 17, draw 0 gives the alternate keyword
  \<^verbatim>\<open>TED AI\<close> and the draws 1 to 17 give the 17 topic keywords in their order; the 18
  keywords are distinct, so the draws map to distinct keywords, and each keyword a draw
  gives has probability exactly 1/18.
\<close>

theorem initial_keyword_uniform:
  "determineInitialKeyword 0 = Some ''TED AI'' \<and>
   map determineInitialKeyword [1..<18] = map Some topics \<and>
   length topics = 17 \<and>
   distinct (''TED AI'' # topics) \<and>
   inj_on determineInitialKeyword {0..<18} \<and>
   (\<forall>r<18. keyword_probability (determineInitialKeyword r) = 1 / 18)"
proof -
  have a: "determineInitialKeyword 0 = Some ''TED AI''"
    by (simp add: determineInitialKeyword_def)
  have "[0..<18] = 0 # [1..<18]" by (simp add: upt_rec)
  with keywords_listed have b: "map determineInitialKeyword [1..<18] = map Some topics"
    by simp
  have c: "length topics = 17" by (simp add: topics_def)
  from a b c keywords_distinct keyword_inj keyword_share show ?thesis by blast
qed

theorem initial_keyword_uniform_witness:
  "(13::nat) < 18 \<and> determineInitialKeyword 13 = Some ''climate'' \<and>
   keyword_probability (Some ''climate'') = 1 / 18"
proof -
  have k: "determineInitialKeyword 13 = Some ''climate''"
    by (simp add: determineInitialKeyword_def topics_def)
  from initial_keyword_uniform
  have "keyword_probability (determineInitialKeyword 13) = 1 / 18" by simp
  with k show ?thesis by simp
qed

subsection \<open>The guard of the initial search\<close>

lemma settle_frame:
  "initialKeyword (performSearch_settle g outcome s) = initialKeyword s"
  "outbound (performSearch_settle g outcome s) = outbound s"
  by (simp_all add: performSearch_settle_def search_then_def search_catch_def
        search_finally_def addLog_def Let_def split: settled.splits list.splits)

lemma issue_frame:
  "initialKeyword (state_after (performSearch_issue q s)) = initialKeyword s"
  "talks (state_after (performSearch_issue q s)) = talks s"
  "selectedTalk (state_after (performSearch_issue q s)) = selectedTalk s"
  by (simp_all add: performSearch_issue_def state_after_def split: sum.splits)

lemma state_after_simps:
  "state_after (Inr s) = s"
  "state_after (Inl (e, s)) = s"
  by (simp_all add: state_after_def)

lemma manual_frame:
  "initialKeyword (state_after (manualSearch s)) = initialKeyword s"
  "talks (state_after (manualSearch s)) = talks s"
  "selectedTalk (state_after (manualSearch s)) = selectedTalk s"
  by (simp_all add: manualSearch_def issue_frame addLog_def)

lemma key_frame:
  "initialKeyword (state_after (handleKeyPress key s)) = initialKeyword s"
  "talks (state_after (handleKeyPress key s)) = talks s"
  "selectedTalk (state_after (handleKeyPress key s)) = selectedTalk s"
  by (simp_all add: handleKeyPress_def manual_frame state_after_simps)

lemma button_frame:
  "initialKeyword (state_after (searchButtonClick s)) = initialKeyword s"
  "talks (state_after (searchButtonClick s)) = talks s"
  "selectedTalk (state_after (searchButtonClick s)) = selectedTalk s"
  by (simp_all add: searchButtonClick_def manual_frame state_after_simps)

lemma effect_frame:
  "talks (state_after (initialKeywordEffect r s)) = talks s"
  "selectedTalk (state_after (initialKeywordEffect r s)) = selectedTalk s"
  by (simp_all add: initialKeywordEffect_def Let_def issue_frame state_after_simps)

lemma keyword_not_empty: "determineInitialKeyword r \<noteq> Some []"
proof -
  have "\<forall>k \<in> set topics. k \<noteq> []" by (simp add: topics_def)
  then show ?thesis by (auto simp: determineInitialKeyword_def)
qed

lemma effect_closes_guard:
  "initialKeyword (state_after (initialKeywordEffect r s)) \<noteq> Some []"
proof (cases "initialKeyword s = Some []")
  case True
  then have "initialKeyword (state_after (initialKeywordEffect r s)) = determineInitialKeyword r"
    by (simp add: initialKeywordEffect_def Let_def issue_frame)
  then show ?thesis by (simp add: keyword_not_empty)
next
  case False
  then show ?thesis by (simp add: initialKeywordEffect_def state_after_simps)
qed

lemma effect_idle: "initialKeyword s \<noteq> Some [] \<Longrightarrow> initialKeywordEffect r s = Inr s"
  by (simp add: initialKeywordEffect_def)

text \<open>The effect never throws: every keyword is made of ASCII characters.\<close>

lemma effect_returns: "initialKeywordEffect r s = Inr (state_after (initialKeywordEffect r s))"
proof -
  obtain u where "searchUrl (determineInitialKeyword r) = Inr u"
    using keyword_url by blast
  then show ?thesis
    by (simp add: initialKeywordEffect_def performSearch_issue_def state_after_def Let_def)
qed

lemma step_keeps_guard:
  "initialKeyword s \<noteq> Some [] \<Longrightarrow> initialKeyword (step e s) \<noteq> Some []"
proof (cases e)
  case (SearchSettled g outcome)
  then show "initialKeyword s \<noteq> Some [] \<Longrightarrow> ?thesis" by (simp add: settle_frame)
qed (simp_all add: effect_idle greeting_frame handleInputChange_def key_frame
       button_frame addLog_def state_after_simps
       clickResult_def resultOnClick_def openTranscriptInNewTab_def
       split: option.splits)

lemma run_keeps_guard:
  "initialKeyword s \<noteq> Some [] \<Longrightarrow> initialKeyword (run evs s) \<noteq> Some []"
  unfolding run_def
  by (induction evs arbitrary: s) (simp_all add: step_keeps_guard)

lemma no_auto_search_after:
  "initialKeyword s \<noteq> Some [] \<Longrightarrow> auto_searches evs s = 0"
proof (induction evs arbitrary: s)
  case Nil
  then show ?case by simp
next
  case (Cons e evs)
  from Cons.prems have "initialKeyword (step e s) \<noteq> Some []" by (rule step_keeps_guard)
  then have "auto_searches evs (step e s) = 0" by (rule Cons.IH)
  with Cons.prems show ?case by (cases e) (simp_all add: effect_idle state_after_simps)
qed

text \<open>
  C6. The first run of the initial-keyword effect on a freshly mounted panel returns
  without throwing, sends one search request, for the keyword of its draw, and sets the
  ref to that keyword, which is never the empty string. Whatever events follow (further
  runs of the effect with any draw, typing, manual searches, settlements, clicks), the
  runs of the effect send exactly one search over the whole sequence, and a further run
  of the effect returns and leaves the state as it is.
\<close>

theorem initial_search_once:
  "initialKeywordEffect r (mountState ts) = Inr (step (InitialKeywordEffect r) (mountState ts)) \<and>
   map Inr (outbound (step (InitialKeywordEffect r) (mountState ts)))
     = [searchUrl (determineInitialKeyword r)] \<and>
   auto_searches (InitialKeywordEffect r # evs) (mountState ts) = 1 \<and>
   initialKeywordEffect r' (run evs (step (InitialKeywordEffect r) (mountState ts)))
     = Inr (run evs (step (InitialKeywordEffect r) (mountState ts)))"
proof -
  let ?s1 = "step (InitialKeywordEffect r) (mountState ts)"
  have r: "initialKeywordEffect r (mountState ts) = Inr ?s1"
    using effect_returns [of r "mountState ts"] by simp
  obtain u where u: "searchUrl (determineInitialKeyword r) = Inr u"
    using keyword_url by blast
  then have o: "outbound ?s1 = [u]"
    by (simp add: initialKeywordEffect_def mountState_def performSearch_issue_def
          state_after_simps Let_def)
  with u have a: "map Inr (outbound ?s1) = [searchUrl (determineInitialKeyword r)]"
    by simp
  have g: "initialKeyword ?s1 \<noteq> Some []"
    using effect_closes_guard [of r "mountState ts"] by simp
  then have "auto_searches evs ?s1 = 0" by (rule no_auto_search_after)
  with o have b: "auto_searches (InitialKeywordEffect r # evs) (mountState ts) = 1"
    by (simp add: mountState_def)
  from g have "initialKeyword (run evs ?s1) \<noteq> Some []" by (rule run_keeps_guard)
  then have c: "initialKeywordEffect r' (run evs ?s1) = Inr (run evs ?s1)"
    by (rule effect_idle)
  from r a b c show ?thesis by simp
qed

subsection \<open>The selected talk stays among the results\<close>

lemma settle_selected:
  assumes "selected_in_results s"
  shows "selected_in_results (performSearch_settle g outcome s)"
proof (cases outcome)
  case (Rejected m)
  with assms show ?thesis
    by (simp add: selected_in_results_def performSearch_settle_def search_catch_def
          search_finally_def addLog_def split: option.splits)
next
  case (Fulfilled r)
  show ?thesis
  proof (cases "status r = 200")
    case True
    then show ?thesis unfolding Fulfilled settle_200 [OF True]
      by (simp add: selected_in_results_def Let_def addLog_def split: list.splits)
  next
    case False
    with assms Fulfilled show ?thesis
      by (simp add: selected_in_results_def performSearch_settle_def search_then_def
            search_catch_def search_finally_def addLog_def split: option.splits)
  qed
qed

lemma step_selected: "selected_in_results s \<Longrightarrow> selected_in_results (step e s)"
proof (cases e)
  case (SearchSettled g outcome)
  then show "selected_in_results s \<Longrightarrow> ?thesis" by (simp add: settle_selected)
qed (simp_all add: selected_in_results_def effect_frame greeting_frame
       handleInputChange_def key_frame button_frame addLog_def
       clickResult_def resultOnClick_def openTranscriptInNewTab_def
       split: option.splits)

text \<open>
  A life of the panel: the initial search for \<^verbatim>\<open>climate\<close> is answered with two talks,
  which the sort reverses, and the user clicks the second result.
\<close>

lemma run_example:
  "selectedTalk (run [InitialKeywordEffect 13,
                      SearchSettled (sconst (3 / 4)) (respond 200 ''OK'' [talkA, talkB] []),
                      ResultClick 1] (mountState [])) = Some talkA \<and>
   talks (run [InitialKeywordEffect 13,
               SearchSettled (sconst (3 / 4)) (respond 200 ''OK'' [talkA, talkB] []),
               ResultClick 1] (mountState [])) = [talkB, talkA]"
  by (simp add: run_def initialKeywordEffect_def clickResult_def resultOnClick_def
        determineInitialKeyword_def topics_def eval_search)

text \<open>
  C10. In every state that a freshly mounted panel reaches by any sequence of events
  (the initial search, manual searches, settlements of searches that succeed or fail,
  selections of a result, and the other events of the panel), the selected talk is none
  or an element of the current results list.
\<close>

theorem selected_always_in_results: "selected_in_results (run evs (mountState ts))"
proof -
  have "selected_in_results s \<Longrightarrow> selected_in_results (fold step evs s)" for s
    by (induction evs arbitrary: s) (simp_all add: step_selected)
  moreover have "selected_in_results (mountState ts)"
    by (simp add: selected_in_results_def mountState_def)
  ultimately show ?thesis by (simp add: run_def)
qed

subsection \<open>generateEmbedUrl\<close>

lemma strip_prefix_append: "strip_prefix p (p @ t) = Some t"
  by (induction p) simp_all

lemma strip_prefix_Some: "strip_prefix p t = Some rest \<Longrightarrow> t = p @ rest"
  by (induction p t rule: strip_prefix.induct) (auto split: if_splits)

lemma ted_prefix_Cons: "\<exists>h tl. ted_prefix @ t = h # tl"
  by (simp add: ted_prefix_def)

lemma match_at_prefix:
  "match_at (ted_prefix @ t) =
     (if takeWhile is_word t = [] then None else Some (takeWhile is_word t))"
  by (simp add: match_at_def strip_prefix_append)

lemma match_at_Some:
  assumes "match_at t = Some name"
  shows "\<exists>c rest. t = ted_prefix @ c # rest \<and> is_word c"
proof -
  from assms obtain r
    where r: "strip_prefix ted_prefix t = Some r" and n: "takeWhile is_word r \<noteq> []"
    by (auto simp: match_at_def split: option.splits if_splits)
  from n obtain c rest where c: "r = c # rest" "is_word c"
    by (cases r) (auto split: if_splits)
  with strip_prefix_Some [OF r] show ?thesis by blast
qed

text \<open>The search finds a match exactly in the strings that contain a talk page.\<close>

lemma match_contains: "tedRegex_match t = Some name \<Longrightarrow> contains_talk_page t"
proof (induction t)
  case Nil
  then show ?case by simp
next
  case (Cons a t)
  show ?case
  proof (cases "match_at (a # t)")
    case None
    with Cons.prems have "tedRegex_match t = Some name" by simp
    then have "contains_talk_page t" by (rule Cons.IH)
    then obtain pre c rest where "t = pre @ ted_prefix @ c # rest" "is_word c"
      by (auto simp: contains_talk_page_def)
    then have "a # t = (a # pre) @ ted_prefix @ c # rest \<and> is_word c" by simp
    then show ?thesis unfolding contains_talk_page_def by blast
  next
    case (Some n)
    from match_at_Some [OF Some]
    obtain c rest where "a # t = [] @ ted_prefix @ c # rest" "is_word c"
      by auto
    then show ?thesis unfolding contains_talk_page_def by blast
  qed
qed

lemma contains_match:
  assumes "is_word c"
  shows "tedRegex_match (pre @ ted_prefix @ c # rest) \<noteq> None"
proof (induction pre)
  case Nil
  obtain h tl where h: "ted_prefix @ c # rest = h # tl" using ted_prefix_Cons by blast
  have "match_at (ted_prefix @ c # rest) \<noteq> None"
    using assms by (simp add: match_at_prefix)
  then have "match_at (h # tl) \<noteq> None" by (simp add: h)
  then have "tedRegex_match (h # tl) \<noteq> None" by (auto split: option.splits)
  with h show ?case by simp
next
  case (Cons a pre)
  then show ?case by (simp split: option.splits)
qed

lemma no_talk_page_no_match: "\<not> contains_talk_page t \<Longrightarrow> tedRegex_match t = None"
  using match_contains by (cases "tedRegex_match t") auto

lemma contains_iff_match: "contains_talk_page t = (tedRegex_match t \<noteq> None)"
proof
  assume "contains_talk_page t"
  then show "tedRegex_match t \<noteq> None"
    unfolding contains_talk_page_def using contains_match by blast
next
  assume "tedRegex_match t \<noteq> None"
  then show "contains_talk_page t" using match_contains by blast
qed

text \<open>
  A talk page at the start of the string, followed by nothing or by a character that is
  not a word character: the capture group is the name.
\<close>

lemma match_talk_page:
  assumes "name \<noteq> []" and "list_all is_word name" and "takeWhile is_word rest = []"
  shows "tedRegex_match (ted_prefix @ name @ rest) = Some name"
proof -
  obtain h tl where h: "ted_prefix @ name @ rest = h # tl" using ted_prefix_Cons by blast
  from assms(2) have "takeWhile is_word (name @ rest) = name @ takeWhile is_word rest"
    by (simp add: takeWhile_append2 list_all_iff)
  with assms have "match_at (ted_prefix @ name @ rest) = Some name"
    by (simp add: match_at_prefix)
  then have "tedRegex_match (h # tl) = Some name"
    by (simp add: h)
  with h show ?thesis by simp
qed

lemma embed_string:
  "generateEmbedUrl (JString t) =
     (case tedRegex_match t of
        None \<Rightarrow> Inr (JString t)
      | Some name \<Rightarrow> Inr (JString (''https://embed.ted.com/talks/'' @ name @ ''?subtitle=en'')))"
  by (cases t) (simp_all add: generateEmbedUrl_def split: option.splits)

text \<open>
  The expression is searched for, not matched against the whole string: a URL with text
  after the name of the talk matches too, and the text after the name is dropped.
\<close>

lemma embed_url_drops_tail:
  "generateEmbedUrl (JString ''https://www.ted.com/talks/some_talk_name/transcript?language=en'')
     = Inr (JString ''https://embed.ted.com/talks/some_talk_name?subtitle=en'')"
  by (simp add: embed_string match_at_def ted_prefix_def is_word_def)

text \<open>Of the form of a talk page: the prefix can be stripped, and a name of word characters is left.\<close>

lemma talk_page_form_iff:
  "talk_page_form t =
     (case strip_prefix ted_prefix t of
        None \<Rightarrow> False
      | Some name \<Rightarrow> name \<noteq> [] \<and> list_all is_word name)"
proof (cases "strip_prefix ted_prefix t")
  case None
  have "\<not> talk_page_form t"
  proof
    assume "talk_page_form t"
    then obtain name where "t = ted_prefix @ name"
      by (auto simp: talk_page_form_def ted_prefix_def)
    with None show False by (simp add: strip_prefix_append)
  qed
  with None show ?thesis by simp
next
  case (Some name)
  then have t: "t = ted_prefix @ name" by (rule strip_prefix_Some)
  have "talk_page_form t = (name \<noteq> [] \<and> list_all is_word name)"
    unfolding talk_page_form_def t by (auto simp: ted_prefix_def)
  with Some show ?thesis by simp
qed

text \<open>
  What a match captures: the longest run of word characters after the leftmost place where
  the prefix is followed by a word character.
\<close>

lemma match_at_parts:
  assumes "match_at t = Some name"
  shows "\<exists>rest. t = ted_prefix @ name @ rest \<and> name \<noteq> [] \<and> list_all is_word name
           \<and> takeWhile is_word rest = []"
proof -
  from assms obtain r
    where r: "strip_prefix ted_prefix t = Some r" and n: "name = takeWhile is_word r"
      and ne: "name \<noteq> []"
    by (auto simp: match_at_def split: option.splits if_splits)
  have t: "t = ted_prefix @ name @ dropWhile is_word r"
    using strip_prefix_Some [OF r] n by simp
  have w: "list_all is_word name"
    unfolding n list_all_iff by (auto dest: set_takeWhileD)
  have "takeWhile is_word (dropWhile is_word r) = []"
  proof (cases "dropWhile is_word r")
    case Nil
    show ?thesis unfolding Nil by simp
  next
    case (Cons d ds)
    then have "dropWhile is_word r \<noteq> []" by simp
    then have "\<not> is_word (hd (dropWhile is_word r))" by (rule hd_dropWhile)
    with Cons show ?thesis by simp
  qed
  with t ne w show ?thesis by blast
qed

lemma match_parts:
  "tedRegex_match t = Some name \<Longrightarrow>
     \<exists>pre rest. t = pre @ ted_prefix @ name @ rest \<and> name \<noteq> [] \<and> list_all is_word name
        \<and> takeWhile is_word rest = []
        \<and> (\<forall>pre' c rest'. t = pre' @ ted_prefix @ c # rest' \<and> is_word c
              \<longrightarrow> length pre \<le> length pre')"
proof (induction t)
  case Nil
  then show ?case by simp
next
  case (Cons a t)
  show ?case
  proof (cases "match_at (a # t)")
    case (Some n)
    with Cons.prems have "match_at (a # t) = Some name" by simp
    from match_at_parts [OF this] obtain rest
      where "a # t = [] @ ted_prefix @ name @ rest" "name \<noteq> []" "list_all is_word name"
        "takeWhile is_word rest = []"
      by auto
    moreover have "\<forall>pre' c rest'. a # t = pre' @ ted_prefix @ c # rest' \<and> is_word c
              \<longrightarrow> length ([]::string) \<le> length pre'"
      by simp
    ultimately show ?thesis by blast
  next
    case None
    with Cons.prems have "tedRegex_match t = Some name" by simp
    from Cons.IH [OF this] obtain pre rest
      where t: "t = pre @ ted_prefix @ name @ rest" and p: "name \<noteq> []" "list_all is_word name"
        "takeWhile is_word rest = []"
        and least: "\<And>pre' c rest'. t = pre' @ ted_prefix @ c # rest' \<Longrightarrow> is_word c
              \<Longrightarrow> length pre \<le> length pre'"
      by blast
    have "length (a # pre) \<le> length pre'"
      if o: "a # t = pre' @ ted_prefix @ c # rest'" and c: "is_word c" for pre' c rest'
    proof (cases pre')
      case Nil
      with o have "match_at (a # t) = match_at (ted_prefix @ c # rest')" by simp
      with c None show ?thesis by (simp add: match_at_prefix)
    next
      case (Cons b p)
      with o have "t = p @ ted_prefix @ c # rest'" by simp
      from least [OF this c] Cons show ?thesis by simp
    qed
    moreover from t have "a # t = (a # pre) @ ted_prefix @ name @ rest" by simp
    ultimately show ?thesis using p by blast
  qed
qed

text \<open>
  C4, as the code has it. \<open>generateEmbedUrl\<close> is a function of its argument alone. For every
  non-empty name made of word characters (letters, digits, underscores), the string
  \<^verbatim>\<open>https://www.ted.com/talks/<name>\<close> gives \<^verbatim>\<open>https://embed.ted.com/talks/<name>?subtitle=en\<close>.
  Every string that contains no talk page (nowhere the prefix followed by a word
  character) is returned unchanged. A string that contains one is rewritten, whatever
  stands before and after: the result is the embed URL of the name that is the longest run
  of word characters after the leftmost such prefix, and the rest of the string is
  dropped. \<^verbatim>\<open>undefined\<close> gives the empty string.
\<close>

theorem embed_url_rewrites:
  "(name \<noteq> [] \<and> list_all is_word name \<longrightarrow>
      generateEmbedUrl (JString (''https://www.ted.com/talks/'' @ name))
        = Inr (JString (''https://embed.ted.com/talks/'' @ name @ ''?subtitle=en''))) \<and>
   (\<not> contains_talk_page t \<longrightarrow> generateEmbedUrl (JString t) = Inr (JString t)) \<and>
   (contains_talk_page t \<longrightarrow>
      (\<exists>pre n rest.
          t = pre @ ''https://www.ted.com/talks/'' @ n @ rest \<and>
          n \<noteq> [] \<and> list_all is_word n \<and> takeWhile is_word rest = [] \<and>
          (\<forall>pre' c rest'. t = pre' @ ''https://www.ted.com/talks/'' @ c # rest' \<and> is_word c
              \<longrightarrow> length pre \<le> length pre') \<and>
          generateEmbedUrl (JString t)
            = Inr (JString (''https://embed.ted.com/talks/'' @ n @ ''?subtitle=en'')))) \<and>
   generateEmbedUrl JUndefined = Inr (JString [])"
proof -
  have a: "generateEmbedUrl (JString (''https://www.ted.com/talks/'' @ name))
        = Inr (JString (''https://embed.ted.com/talks/'' @ name @ ''?subtitle=en''))"
    if "name \<noteq> []" "list_all is_word name"
  proof -
    from that have "tedRegex_match (ted_prefix @ name @ []) = Some name"
      by (intro match_talk_page) simp_all
    then have "tedRegex_match (''https://www.ted.com/talks/'' @ name) = Some name"
      by (simp add: ted_prefix_def)
    then show ?thesis unfolding embed_string by simp
  qed
  have b: "generateEmbedUrl (JString t) = Inr (JString t)" if "\<not> contains_talk_page t"
    unfolding embed_string using no_talk_page_no_match [OF that] by simp
  have c: "\<exists>pre n rest.
          t = pre @ ''https://www.ted.com/talks/'' @ n @ rest \<and>
          n \<noteq> [] \<and> list_all is_word n \<and> takeWhile is_word rest = [] \<and>
          (\<forall>pre' c rest'. t = pre' @ ''https://www.ted.com/talks/'' @ c # rest' \<and> is_word c
              \<longrightarrow> length pre \<le> length pre') \<and>
          generateEmbedUrl (JString t)
            = Inr (JString (''https://embed.ted.com/talks/'' @ n @ ''?subtitle=en''))"
    if "contains_talk_page t"
  proof -
    from that obtain n where n: "tedRegex_match t = Some n"
      by (auto simp: contains_iff_match)
    then have "generateEmbedUrl (JString t)
            = Inr (JString (''https://embed.ted.com/talks/'' @ n @ ''?subtitle=en''))"
      unfolding embed_string by simp
    with match_parts [OF n] show ?thesis
      unfolding ted_prefix_def by blast
  qed
  have d: "generateEmbedUrl JUndefined = Inr (JString [])"
    by (simp add: generateEmbedUrl_def)
  from a b c d show ?thesis by blast
qed

theorem embed_url_rewrites_witness:
  "list_all is_word ''some_talk_name'' \<and>
   generateEmbedUrl (JString ''https://www.ted.com/talks/some_talk_name'')
     = Inr (JString ''https://embed.ted.com/talks/some_talk_name?subtitle=en'') \<and>
   \<not> contains_talk_page ''https://example.org/v/1'' \<and>
   generateEmbedUrl (JString ''https://example.org/v/1'')
     = Inr (JString ''https://example.org/v/1'') \<and>
   contains_talk_page ''see https://www.ted.com/talks/a-b'' \<and>
   generateEmbedUrl (JString ''see https://www.ted.com/talks/a-b'')
     = Inr (JString ''https://embed.ted.com/talks/a?subtitle=en'')"
proof -
  have w: "''some_talk_name'' \<noteq> [] \<and> list_all is_word ''some_talk_name''"
    by (simp add: is_word_def)
  have n: "\<not> contains_talk_page ''https://example.org/v/1''"
    by (simp add: contains_iff_match match_at_def ted_prefix_def)
  have m: "tedRegex_match ''see https://www.ted.com/talks/a-b'' = Some ''a''"
    by (simp add: match_at_def ted_prefix_def is_word_def)
  then have k: "contains_talk_page ''see https://www.ted.com/talks/a-b''"
    by (simp add: contains_iff_match)
  from m have e: "generateEmbedUrl (JString ''see https://www.ted.com/talks/a-b'')
     = Inr (JString ''https://embed.ted.com/talks/a?subtitle=en'')"
    by (simp add: embed_string)
  from w n embed_url_rewrites [of "''some_talk_name''" "''https://example.org/v/1''"]
  have "generateEmbedUrl (JString ''https://www.ted.com/talks/some_talk_name'')
     = Inr (JString ''https://embed.ted.com/talks/some_talk_name?subtitle=en'') \<and>
     generateEmbedUrl (JString ''https://example.org/v/1'')
     = Inr (JString ''https://example.org/v/1'')"
    by simp
  with w n k e show ?thesis by simp
qed

text \<open>
  A talk page with a query string is not of the form \<^verbatim>\<open>https://www.ted.com/talks/<name>\<close>,
  and it is not returned unchanged: the query string is dropped.
\<close>

theorem embed_url_query_string:
  "\<not> talk_page_form ''https://www.ted.com/talks/some_talk_name?language=en'' \<and>
   generateEmbedUrl (JString ''https://www.ted.com/talks/some_talk_name?language=en'')
     = Inr (JString ''https://embed.ted.com/talks/some_talk_name?subtitle=en'') \<and>
   generateEmbedUrl (JString ''https://www.ted.com/talks/some_talk_name?language=en'')
     \<noteq> Inr (JString ''https://www.ted.com/talks/some_talk_name?language=en'')"
  by (simp add: talk_page_form_iff embed_string match_at_def ted_prefix_def is_word_def)

text \<open>
  C5, as the code has it. \<^verbatim>\<open>undefined\<close> and \<^verbatim>\<open>null\<close> give the empty string. No input makes
  \<open>generateEmbedUrl\<close> throw: the guard returns before \<^verbatim>\<open>match\<close> is called on a value that
  is not a string. A boolean or a number is returned as it is, through \<^verbatim>\<open>url ?? ""\<close>, which
  replaces only \<^verbatim>\<open>undefined\<close> and \<^verbatim>\<open>null\<close>.
\<close>

theorem embed_url_never_throws:
  "generateEmbedUrl JUndefined = Inr (JString []) \<and>
   generateEmbedUrl JNull = Inr (JString []) \<and>
   generateEmbedUrl (JBool b) = Inr (JBool b) \<and>
   generateEmbedUrl (JNum n) = Inr (JNum n) \<and>
   (\<exists>v. generateEmbedUrl u = Inr v)"
proof -
  have "\<exists>v. generateEmbedUrl u = Inr v"
    by (cases u) (simp_all add: generateEmbedUrl_def split: option.splits)
  then show ?thesis by (simp add: generateEmbedUrl_def)
qed

theorem embed_url_never_throws_witness:
  "generateEmbedUrl JNull = Inr (JString []) \<and>
   generateEmbedUrl (JBool True) = Inr (JBool True) \<and>
   generateEmbedUrl (JNum 7) = Inr (JNum 7) \<and>
   generateEmbedUrl (JString ''https://example.org/v/1'') \<noteq> Inl TypeError"
proof -
  from embed_url_never_throws [of True 7 "JString ''https://example.org/v/1''"]
  show ?thesis by auto
qed

text \<open>The number 42 is not a string, and it comes back as 42, not as the empty string.\<close>

theorem embed_url_number:
  "generateEmbedUrl (JNum 42) = Inr (JNum 42) \<and>
   generateEmbedUrl (JNum 42) \<noteq> Inr (JString [])"
  by (simp add: generateEmbedUrl_def)

end
